theory Spec2Isabelle
  imports Complex_Main "HOL-Library.Sublist"
begin

section \<open>Data model of script.js\<close>

text \<open>
  \<^verbatim>\<open>const COLORS = ["red", "blue", "green", "yellow"];\<close>
  A signal is one of these four strings. The pads of the page carry one of them in
  \<^verbatim>\<open>data-color\<close>, and \<^verbatim>\<open>randColor()\<close> returns an element of \<^verbatim>\<open>COLORS\<close>.
\<close>

datatype color = Red | Blue | Green | Yellow

definition COLORS :: "color list" where
  "COLORS = [Red, Blue, Green, Yellow]"

text \<open>
  \<^verbatim>\<open>const LEVELS = [{ id: 1, sequenceLength: 3, stepMs: 700 }, ...];\<close>
  The field \<^verbatim>\<open>id\<close> is called \<open>level_id\<close> here (\<open>id\<close> is the identity function of HOL).
  JavaScript numbers that measure time are modelled as reals.
\<close>

record level =
  level_id :: nat
  sequenceLength :: nat
  stepMs :: real

definition LEVELS :: "level list" where
  "LEVELS =
    [\<lparr>level_id = 1, sequenceLength = 3, stepMs = 700\<rparr>,
     \<lparr>level_id = 2, sequenceLength = 4, stepMs = 620\<rparr>,
     \<lparr>level_id = 3, sequenceLength = 5, stepMs = 540\<rparr>,
     \<lparr>level_id = 4, sequenceLength = 6, stepMs = 470\<rparr>,
     \<lparr>level_id = 5, sequenceLength = 7, stepMs = 400\<rparr>]"

text \<open>The keys of \<^verbatim>\<open>screens\<close>: "menu", "levels", "game", "gameover", "victory".\<close>

datatype screen = Menu | Levels | Game | Gameover | Victory

text \<open>
  Reading \<^verbatim>\<open>a[i]\<close> of a JavaScript array: the element, or \<^verbatim>\<open>undefined\<close> (\<open>None\<close>)
  when \<open>i\<close> is not below \<^verbatim>\<open>a.length\<close>.
\<close>

definition at_index :: "'a list \<Rightarrow> nat \<Rightarrow> 'a option" where
  "at_index xs i = (if i < length xs then Some (xs ! i) else None)"


section \<open>The playback engine: playSequenceWithRaf\<close>

text \<open>
  The closure of one call of \<^verbatim>\<open>playSequenceWithRaf\<close> holds \<^verbatim>\<open>idx\<close> and
  \<^verbatim>\<open>lastStamp\<close>, both initially 0. One call of \<^verbatim>\<open>frame(ts)\<close> does what
  \<open>frame\<close> returns: the effects it triggers, in order, and the closure with which it
  registered itself again through \<^verbatim>\<open>requestAnimationFrame(frame)\<close>, or \<open>None\<close> when it
  returned without registering (after \<^verbatim>\<open>onDone()\<close>).

  \<open>Emit x\<close> stands for the pair \<^verbatim>\<open>glowPad(x); playColorSound(x)\<close>, where \<open>x\<close> is
  \<^verbatim>\<open>sequence[idx]\<close>; \<open>Done\<close> stands for the call \<^verbatim>\<open>onDone()\<close>.
  The test \<^verbatim>\<open>!lastStamp\<close> holds exactly when \<^verbatim>\<open>lastStamp\<close> is 0.
\<close>

datatype pb_event = Emit "color option" | Done

record closure =
  idx :: nat
  lastStamp :: real

definition frame :: "color list \<Rightarrow> real \<Rightarrow> real \<Rightarrow> closure \<Rightarrow> pb_event list \<times> closure option" where
  "frame sq minInterval ts c =
    (if lastStamp c = 0 then
       ([Emit (at_index sq (idx c))], Some \<lparr>idx = idx c + 1, lastStamp = ts\<rparr>)
     else if ts - lastStamp c \<ge> minInterval then
       (if idx c \<ge> length sq then ([Done], None)
        else ([Emit (at_index sq (idx c))], Some \<lparr>idx = idx c + 1, lastStamp = ts\<rparr>))
     else ([], Some c))"


definition minIntervalOf :: "real \<Rightarrow> real" where
  "minIntervalOf stepMs' = max 280 stepMs'"


text \<open>The trace of a playback that emits every element once, in order, and then completes.\<close>

definition fullRun :: "color list \<Rightarrow> pb_event list" where
  "fullRun sq = map (\<lambda>x. Emit (Some x)) sq @ [Done]"



section \<open>The game state and its environment\<close>

text \<open>
  The object \<^verbatim>\<open>state\<close> of the script, together with what the script keeps in the browser:
  \<^item> \<open>sequence\<close> is a reference to an array; the arrays live in the store \<open>arrays\<close>, and
    \<open>nextArray\<close> is the next unused reference (\<^verbatim>\<open>state.sequence = []\<close> creates an array, and
    \<^verbatim>\<open>state.sequence.push\<close> changes one in place, also under a playback that holds it);
  \<^item> \<open>rafQueue\<close> holds the \<^verbatim>\<open>frame\<close> callbacks registered with
    \<^verbatim>\<open>requestAnimationFrame\<close> and not yet called, oldest first;
  \<^item> \<open>timeouts\<close> counts the pending \<^verbatim>\<open>setTimeout(beginRound, 650)\<close> registrations;
  \<^item> \<open>rng\<close> and \<open>drawn\<close> are the random source: the results of the successive calls of
    \<^verbatim>\<open>randColor()\<close>, and the number of calls made so far;
  \<^item> \<open>effects\<close> records the calls to the presentation layer, in order.
  The audio engine, the background music and the timers that only end a glow or play a
  tone change no field of \<^verbatim>\<open>state\<close> and are left out.
\<close>

datatype done_kind = RoundDone | ReplayDone

record playback =
  pb_sequence :: nat
  pb_minInterval :: real
  pb_closure :: closure
  pb_onDone :: done_kind

datatype effect =
    Signal "color option"
  | WrongSound
  | FinalScoreText int
  | VictoryScoreText int
  | StatusText string
  | Hud nat int
  | Shown screen

datatype error = TypeError

record world =
  screen :: screen
  levelIndex :: nat
  score :: int
  sequence :: nat
  inputIndex :: nat
  acceptingInput :: bool
  musicEnabled :: bool
  isAnimatingSequence :: bool
  arrays :: "nat \<Rightarrow> color list"
  nextArray :: nat
  rafQueue :: "playback list"
  timeouts :: nat
  rng :: "nat \<Rightarrow> color"
  drawn :: nat
  effects :: "effect list"

type_synonym outcome = "(error \<times> world) + world"

text \<open>The contents of \<^verbatim>\<open>state.sequence\<close>.\<close>

abbreviation sequenceOf :: "world \<Rightarrow> color list" where
  "sequenceOf w \<equiv> arrays w (sequence w)"

text \<open>
  The state when \<^verbatim>\<open>init()\<close> has run: the initial \<^verbatim>\<open>state\<close> object, whose array is at
  reference 0, after \<^verbatim>\<open>showScreen("menu")\<close> and \<^verbatim>\<open>setMusicEnabled(true)\<close>.
\<close>

definition init :: "(nat \<Rightarrow> color) \<Rightarrow> world" where
  "init r =
    \<lparr>screen = Menu, levelIndex = 0, score = 0, sequence = 0, inputIndex = 0,
     acceptingInput = False, musicEnabled = True, isAnimatingSequence = False,
     arrays = (\<lambda>_. []), nextArray = 1, rafQueue = [], timeouts = 0,
     rng = r, drawn = 0, effects = [Shown Menu]\<rparr>"

definition emit :: "effect \<Rightarrow> world \<Rightarrow> world" where
  "emit e w = w\<lparr>effects := effects w @ [e]\<rparr>"

definition showScreen :: "screen \<Rightarrow> world \<Rightarrow> world" where
  "showScreen name w = emit (Shown name) (w\<lparr>screen := name\<rparr>)"

text \<open>
  \<^verbatim>\<open>updateHud\<close> reads \<^verbatim>\<open>LEVELS[state.levelIndex].id\<close>: a TypeError when the index is
  outside the catalog. An uncaught error ends the running handler and leaves the state
  as it is at that point: \<open>Inl\<close> carries the error and that state.
\<close>

definition updateHud :: "world \<Rightarrow> outcome" where
  "updateHud w =
    (if levelIndex w < length LEVELS
     then Inr (emit (Hud (level_id (LEVELS ! levelIndex w)) (score w)) w)
     else Inl (TypeError, w))"

text \<open>
  \<^verbatim>\<open>randColor()\<close> returns \<^verbatim>\<open>COLORS[Math.floor(Math.random() * COLORS.length)]\<close>;
  \<^verbatim>\<open>Math.random()\<close> is in [0, 1), so this is one of the four elements of \<^verbatim>\<open>COLORS\<close>,
  and the random source gives it directly.
\<close>

definition randColor :: "world \<Rightarrow> color \<times> world" where
  "randColor w = (rng w (drawn w), w\<lparr>drawn := drawn w + 1\<rparr>)"

text \<open>\<^verbatim>\<open>state.sequence.push(c)\<close>\<close>

definition push :: "color \<Rightarrow> world \<Rightarrow> world" where
  "push c w = w\<lparr>arrays := (arrays w)(sequence w := sequenceOf w @ [c])\<rparr>"

text \<open>
  The call \<^verbatim>\<open>playSequenceWithRaf(sequence, stepMs, onDone)\<close> in the game: it registers
  \<^verbatim>\<open>frame\<close> with a fresh closure.
\<close>

definition requestPlayback :: "nat \<Rightarrow> real \<Rightarrow> done_kind \<Rightarrow> world \<Rightarrow> world" where
  "requestPlayback a stepMs' k w =
    w\<lparr>rafQueue := rafQueue w @
        [\<lparr>pb_sequence = a, pb_minInterval = minIntervalOf stepMs',
          pb_closure = \<lparr>idx = 0, lastStamp = 0\<rparr>, pb_onDone = k\<rparr>]\<rparr>"

definition beginRound :: "world \<Rightarrow> outcome" where
  "beginRound w =
    (let w1 = w\<lparr>acceptingInput := False, isAnimatingSequence := True, inputIndex := 0\<rparr> in
     case updateHud w1 of
       Inl e \<Rightarrow> Inl e
     | Inr w2 \<Rightarrow>
         Inr (requestPlayback (sequence w2) (stepMs (LEVELS ! levelIndex w2)) RoundDone
               (emit (StatusText ''Watch the sequence...'') w2)))"

text \<open>The loop \<^verbatim>\<open>for (let i = 0; i < firstLength; i += 1) state.sequence.push(randColor())\<close>.\<close>

function fillSequence :: "nat \<Rightarrow> nat \<Rightarrow> world \<Rightarrow> world" where
  "fillSequence i firstLength w =
    (if i < firstLength
     then (case randColor w of (c, w') \<Rightarrow> fillSequence (i + 1) firstLength (push c w'))
     else w)"
  by pat_completeness auto
termination
  by (relation "measure (\<lambda>(i, firstLength, w). firstLength - i)") auto

definition startRunFromLevel :: "nat \<Rightarrow> world \<Rightarrow> outcome" where
  "startRunFromLevel index w =
    (let w1 = w\<lparr>levelIndex := index, score := 0, sequence := nextArray w,
                 arrays := (arrays w)(nextArray w := []), nextArray := nextArray w + 1\<rparr> in
     if index < length LEVELS then
       beginRound (showScreen Game (fillSequence 0 (sequenceLength (LEVELS ! index)) w1))
     else Inl (TypeError, w1))"

definition advanceLevelOrWin :: "world \<Rightarrow> world" where
  "advanceLevelOrWin w =
    (let w1 = w\<lparr>score := score w + 100\<rparr> in
     if levelIndex w1 = length LEVELS - 1 then
       showScreen Victory (emit (VictoryScoreText (score w1)) w1)
     else
       (case randColor (w1\<lparr>levelIndex := levelIndex w1 + 1\<rparr>) of
          (c, w2) \<Rightarrow>
            (emit (StatusText ''Great! Next level...'') (push c w2))
              \<lparr>timeouts := timeouts w2 + 1\<rparr>))"

definition onPadPress :: "color \<Rightarrow> world \<Rightarrow> world" where
  "onPadPress color w =
    (if \<not> acceptingInput w \<or> isAnimatingSequence w \<or> screen w \<noteq> Game then w
     else
       let w1 = emit (Signal (Some color)) w;
           expected = at_index (sequenceOf w1) (inputIndex w1)
       in
         if Some color \<noteq> expected then
           showScreen Gameover
             (emit (FinalScoreText (score w1)) (emit WrongSound (w1\<lparr>acceptingInput := False\<rparr>)))
         else
           let w2 = w1\<lparr>inputIndex := inputIndex w1 + 1\<rparr> in
           if inputIndex w2 \<ge> length (sequenceOf w2)
           then advanceLevelOrWin (w2\<lparr>acceptingInput := False\<rparr>)
           else w2)"

text \<open>The click handler of the button "replay-sequence".\<close>

definition replaySequence :: "world \<Rightarrow> outcome" where
  "replaySequence w =
    (if screen w \<noteq> Game \<or> isAnimatingSequence w \<or> acceptingInput w = False then Inr w
     else
       let w1 = emit (StatusText ''Replaying...'')
                  (w\<lparr>acceptingInput := False, isAnimatingSequence := True\<rparr>)
       in
         if levelIndex w1 < length LEVELS
         then Inr (requestPlayback (sequence w1) (stepMs (LEVELS ! levelIndex w1)) ReplayDone w1)
         else Inl (TypeError, w1))"

definition toggleMusic :: "world \<Rightarrow> world" where
  "toggleMusic w = w\<lparr>musicEnabled := \<not> musicEnabled w\<rparr>"

text \<open>
  The two completion callbacks: the one \<^verbatim>\<open>beginRound\<close> passes, and the one the replay
  handler passes, which also resets \<^verbatim>\<open>state.inputIndex\<close>.
\<close>

fun onDone :: "done_kind \<Rightarrow> world \<Rightarrow> world" where
  "onDone RoundDone w =
     emit (StatusText ''Your turn.'') (w\<lparr>isAnimatingSequence := False, acceptingInput := True\<rparr>)"
| "onDone ReplayDone w =
     emit (StatusText ''Your turn.'')
       (w\<lparr>isAnimatingSequence := False, acceptingInput := True, inputIndex := 0\<rparr>)"

fun perform :: "done_kind \<Rightarrow> world \<Rightarrow> pb_event \<Rightarrow> world" where
  "perform k w (Emit x) = emit (Signal x) w"
| "perform k w Done = onDone k w"

text \<open>
  One registered \<^verbatim>\<open>frame\<close> callback called with timestamp \<open>ts\<close>: it reads the array it
  holds as the array is now, performs its effects, and is registered again unless it
  completed.
\<close>

definition runFrame :: "real \<Rightarrow> world \<Rightarrow> playback \<Rightarrow> world" where
  "runFrame ts w p =
    (case frame (arrays w (pb_sequence p)) (pb_minInterval p) ts (pb_closure p) of
       (evs, nxt) \<Rightarrow>
         let w1 = foldl (perform (pb_onDone p)) w evs in
         (case nxt of
            None \<Rightarrow> w1
          | Some c' \<Rightarrow> w1\<lparr>rafQueue := rafQueue w1 @ [p\<lparr>pb_closure := c'\<rparr>]\<rparr>))"

text \<open>
  One animation frame of the browser: the callbacks registered before it are called in
  the order of their registration, all with the same timestamp; what they register is
  for the next frame.
\<close>

definition animationFrame :: "real \<Rightarrow> world \<Rightarrow> world" where
  "animationFrame ts w = foldl (runFrame ts) (w\<lparr>rafQueue := []\<rparr>) (rafQueue w)"

text \<open>One pending \<^verbatim>\<open>setTimeout(beginRound, 650)\<close> fires.\<close>

definition timeoutFires :: "world \<Rightarrow> outcome" where
  "timeoutFires w =
    (if timeouts w = 0 then Inr w else beginRound (w\<lparr>timeouts := timeouts w - 1\<rparr>))"

text \<open>
  The events the script handles. \<open>ToLevels\<close> is a click on "start-btn", "restart-btn" or
  "play-again-btn", \<open>ToMenu\<close> a click on one of the three "back-menu" buttons,
  \<open>LevelButton idx\<close> a click on the button \<^verbatim>\<open>createLevelButtons\<close> made for
  \<^verbatim>\<open>LEVELS[idx]\<close>.
\<close>

datatype event =
    ToLevels
  | ToMenu
  | LevelButton nat
  | ReplayButton
  | Pad color
  | MusicButton
  | AnimationFrame real
  | Timeout

fun handle :: "event \<Rightarrow> world \<Rightarrow> outcome" where
  "handle ToLevels w = Inr (showScreen Levels w)"
| "handle ToMenu w = Inr (showScreen Menu w)"
| "handle (LevelButton i) w = startRunFromLevel i w"
| "handle ReplayButton w = replaySequence w"
| "handle (Pad c) w = Inr (onPadPress c w)"
| "handle MusicButton w = Inr (toggleMusic w)"
| "handle (AnimationFrame ts) w = Inr (animationFrame ts w)"
| "handle Timeout w = timeoutFires w"

text \<open>The state a handler leaves behind, whether it returned or ended in an uncaught error.\<close>

fun after :: "outcome \<Rightarrow> world" where
  "after (Inl (e, w)) = w"
| "after (Inr w) = w"

fun run :: "event list \<Rightarrow> world \<Rightarrow> world" where
  "run [] w = w"
| "run (e # es) w = run es (after (handle e w))"

text \<open>
  The states the script can be in: the handlers have no guard on the screen that is
  shown, so every event is taken at every state; a level button exists for each entry of
  the catalog only.
\<close>

inductive reachable :: "world \<Rightarrow> bool" where
  start: "reachable (init r)"
| step: "reachable w \<Longrightarrow> (\<And>i. e = LevelButton i \<Longrightarrow> i < length LEVELS) \<Longrightarrow>
         reachable (after (handle e w))"

text \<open>
  A pad press completes the round when it is accepted, matches the expected signal and
  moves \<^verbatim>\<open>inputIndex\<close> to the end of the sequence.
\<close>

definition completesRound :: "color \<Rightarrow> world \<Rightarrow> bool" where
  "completesRound c w \<longleftrightarrow>
     acceptingInput w \<and> \<not> isAnimatingSequence w \<and> screen w = Game
     \<and> at_index (sequenceOf w) (inputIndex w) = Some c
     \<and> inputIndex w + 1 \<ge> length (sequenceOf w)"

text \<open>
  The number of rounds completed in the current run, along the events from state \<open>w\<close>:
  a level button starts a run, a completing pad press ends a round.
\<close>

fun roundsCompleted :: "world \<Rightarrow> nat \<Rightarrow> event list \<Rightarrow> nat" where
  "roundsCompleted w n [] = n"
| "roundsCompleted w n (e # es) =
     roundsCompleted (after (handle e w))
       (case e of
          LevelButton i \<Rightarrow> 0
        | Pad c \<Rightarrow> if completesRound c w then n + 1 else n
        | _ \<Rightarrow> n)
       es"


section \<open>Example runs\<close>


definition demoRng :: "nat \<Rightarrow> color" where
  "demoRng n = (if n = 0 then Red else if n = 1 then Blue else Green)"

text \<open>
  A run from level 1, whose sequence is red, blue, green: \<open>demoWatch\<close> is the state
  after the first frame of the playback, \<open>demoTurn\<close> the state when the playback has
  completed, \<open>demoSecond\<close> the state after the first correct pad press, \<open>demoNext\<close> the
  state after the third. \<open>demoStale\<close> is \<open>demoWatch\<close> after a click on the button of level 2.
\<close>

definition demoWatch :: world where
  "demoWatch = run [LevelButton 0, AnimationFrame 1000] (init demoRng)"

definition demoTurn :: world where
  "demoTurn = run (map AnimationFrame [2000, 3000, 4000]) demoWatch"

definition demoSecond :: world where
  "demoSecond = run [Pad Red] demoTurn"



text \<open>
  A whole game from level 1, up to the last pad press of level 5: one frame per second,
  every round repeated correctly.
\<close>

definition demoWin :: "event list" where
  "demoWin =
     LevelButton 0 # map AnimationFrame [1000, 2000, 3000, 4000]
       @ map Pad [Red, Blue, Green]
       @ Timeout # map AnimationFrame [5000, 6000, 7000, 8000, 9000]
       @ map Pad [Red, Blue, Green, Green]
       @ Timeout # map AnimationFrame [10000, 11000, 12000, 13000, 14000, 15000]
       @ map Pad [Red, Blue, Green, Green, Green]
       @ Timeout # map AnimationFrame [16000, 17000, 18000, 19000, 20000, 21000, 22000]
       @ map Pad [Red, Blue, Green, Green, Green, Green]
       @ Timeout # map AnimationFrame [23000, 24000, 25000, 26000, 27000, 28000, 29000, 30000]
       @ map Pad [Red, Blue, Green, Green, Green, Green]"


section \<open>Properties of the playback engine\<close>










lemma fullRun_drop_all: "length sq \<le> k \<Longrightarrow> fullRun (drop k sq) = [Done]"
  by (simp add: fullRun_def)












section \<open>Properties of the handlers\<close>

declare fillSequence.simps [simp del]

text \<open>The loop of \<^verbatim>\<open>startRunFromLevel\<close> pushes the next \<open>n - i\<close> draws and changes nothing else.\<close>

lemma fillSequence_fields:
  "screen (fillSequence i n w) = screen w
   \<and> levelIndex (fillSequence i n w) = levelIndex w
   \<and> score (fillSequence i n w) = score w
   \<and> sequence (fillSequence i n w) = sequence w
   \<and> inputIndex (fillSequence i n w) = inputIndex w
   \<and> acceptingInput (fillSequence i n w) = acceptingInput w
   \<and> musicEnabled (fillSequence i n w) = musicEnabled w
   \<and> isAnimatingSequence (fillSequence i n w) = isAnimatingSequence w
   \<and> arrays (fillSequence i n w) =
        (arrays w)(sequence w := sequenceOf w @ map (rng w) [drawn w..<drawn w + (n - i)])
   \<and> nextArray (fillSequence i n w) = nextArray w
   \<and> rafQueue (fillSequence i n w) = rafQueue w
   \<and> timeouts (fillSequence i n w) = timeouts w
   \<and> rng (fillSequence i n w) = rng w
   \<and> drawn (fillSequence i n w) = drawn w + (n - i)
   \<and> effects (fillSequence i n w) = effects w"
proof (induction i n w rule: fillSequence.induct)
  case (1 i n w)
  show ?case
  proof (cases "i < n")
    case False
    then show ?thesis by (simp add: fillSequence.simps [of i n w])
  next
    case True
    let ?w = "push (rng w (drawn w)) (w\<lparr>drawn := drawn w + 1\<rparr>)"
    from True have n: "n - i = Suc (n - (i + 1))" by simp
    have unfold: "fillSequence i n w = fillSequence (i + 1) n ?w"
      using True by (simp add: fillSequence.simps [of i n w] randColor_def)
    have ih: "screen (fillSequence (i + 1) n ?w) = screen ?w
   \<and> levelIndex (fillSequence (i + 1) n ?w) = levelIndex ?w
   \<and> score (fillSequence (i + 1) n ?w) = score ?w
   \<and> sequence (fillSequence (i + 1) n ?w) = sequence ?w
   \<and> inputIndex (fillSequence (i + 1) n ?w) = inputIndex ?w
   \<and> acceptingInput (fillSequence (i + 1) n ?w) = acceptingInput ?w
   \<and> musicEnabled (fillSequence (i + 1) n ?w) = musicEnabled ?w
   \<and> isAnimatingSequence (fillSequence (i + 1) n ?w) = isAnimatingSequence ?w
   \<and> arrays (fillSequence (i + 1) n ?w) =
        (arrays ?w)(sequence ?w := sequenceOf ?w @ map (rng ?w) [drawn ?w..<drawn ?w + (n - (i + 1))])
   \<and> nextArray (fillSequence (i + 1) n ?w) = nextArray ?w
   \<and> rafQueue (fillSequence (i + 1) n ?w) = rafQueue ?w
   \<and> timeouts (fillSequence (i + 1) n ?w) = timeouts ?w
   \<and> rng (fillSequence (i + 1) n ?w) = rng ?w
   \<and> drawn (fillSequence (i + 1) n ?w) = drawn ?w + (n - (i + 1))
   \<and> effects (fillSequence (i + 1) n ?w) = effects ?w"
      by (rule "1.IH" [OF True]) (simp add: randColor_def)
    have upt: "[drawn w..<drawn w + (n - i)] = drawn w # [Suc (drawn w)..<Suc (drawn w) + (n - (i + 1))]"
      using True by (simp add: upt_conv_Cons n del: upt_Suc)
    from ih show ?thesis
      unfolding unfold by (simp add: push_def upt) (use True in simp)
  qed
qed

lemma fillSequence_closed:
  "fillSequence i n w =
     w\<lparr>arrays := (arrays w)(sequence w := sequenceOf w @ map (rng w) [drawn w..<drawn w + (n - i)]),
       drawn := drawn w + (n - i)\<rparr>"
  by (rule world.equality) (simp_all add: fillSequence_fields)

declare fillSequence_closed [code]

lemma emit_simps:
  "screen (emit e w) = screen w" "levelIndex (emit e w) = levelIndex w"
  "score (emit e w) = score w" "sequence (emit e w) = sequence w"
  "inputIndex (emit e w) = inputIndex w" "acceptingInput (emit e w) = acceptingInput w"
  "musicEnabled (emit e w) = musicEnabled w"
  "isAnimatingSequence (emit e w) = isAnimatingSequence w"
  "arrays (emit e w) = arrays w" "nextArray (emit e w) = nextArray w"
  "rafQueue (emit e w) = rafQueue w" "timeouts (emit e w) = timeouts w"
  "rng (emit e w) = rng w" "drawn (emit e w) = drawn w"
  "effects (emit e w) = effects w @ [e]"
  by (simp_all add: emit_def)

lemma updateHud_ok: "levelIndex w < length LEVELS \<Longrightarrow>
  updateHud w = Inr (emit (Hud (level_id (LEVELS ! levelIndex w)) (score w)) w)"
  by (simp add: updateHud_def)

lemma beginRound_ok:
  "levelIndex w < length LEVELS \<Longrightarrow>
   beginRound w =
     Inr (w\<lparr>acceptingInput := False, isAnimatingSequence := True, inputIndex := 0,
            effects := effects w @ [Hud (level_id (LEVELS ! levelIndex w)) (score w),
                                    StatusText ''Watch the sequence...''],
            rafQueue := rafQueue w @
              [\<lparr>pb_sequence = sequence w, pb_minInterval = minIntervalOf (stepMs (LEVELS ! levelIndex w)),
                pb_closure = \<lparr>idx = 0, lastStamp = 0\<rparr>, pb_onDone = RoundDone\<rparr>]\<rparr>)"
  by (simp add: beginRound_def updateHud_def emit_def requestPlayback_def)

lemma beginRound_flags:
  "\<not> acceptingInput (after (beginRound w))"
  by (cases "levelIndex w < length LEVELS") (simp_all add: beginRound_ok, simp add: beginRound_def updateHud_def)

lemma run_append: "run (xs @ ys) w = run ys (run xs w)"
  by (induction xs arbitrary: w) simp_all

lemma reachable_run:
  assumes "reachable w" and "\<And>i. LevelButton i \<in> set evs \<Longrightarrow> i < length LEVELS"
  shows "reachable (run evs w)"
  using assms
proof (induction evs arbitrary: w)
  case Nil
  then show ?case by simp
next
  case (Cons e evs)
  from Cons.prems have "reachable (after (handle e w))"
    by (intro reachable.step) simp_all
  with Cons show ?case by simp
qed

subsection \<open>Animation frames\<close>

lemma runFrame_cases:
  "runFrame ts w p = w\<lparr>rafQueue := rafQueue w @ [p]\<rparr>
   \<or> runFrame ts w p =
        (emit (Signal (at_index (arrays w (pb_sequence p)) (idx (pb_closure p)))) w)
          \<lparr>rafQueue := rafQueue w @
              [p\<lparr>pb_closure := \<lparr>idx = idx (pb_closure p) + 1, lastStamp = ts\<rparr>\<rparr>]\<rparr>
   \<or> runFrame ts w p = onDone (pb_onDone p) w"
  by (simp add: runFrame_def frame_def emit_def)

lemma runFrame_keeps:
  "screen (runFrame ts w p) = screen w \<and> levelIndex (runFrame ts w p) = levelIndex w
   \<and> score (runFrame ts w p) = score w \<and> sequence (runFrame ts w p) = sequence w
   \<and> arrays (runFrame ts w p) = arrays w \<and> nextArray (runFrame ts w p) = nextArray w
   \<and> timeouts (runFrame ts w p) = timeouts w \<and> rng (runFrame ts w p) = rng w
   \<and> drawn (runFrame ts w p) = drawn w \<and> musicEnabled (runFrame ts w p) = musicEnabled w"
  using runFrame_cases [of ts w p]
  by (cases "pb_onDone p") (auto simp: emit_def)

lemma frames_keep:
  "screen (foldl (runFrame ts) w q) = screen w \<and> levelIndex (foldl (runFrame ts) w q) = levelIndex w
   \<and> score (foldl (runFrame ts) w q) = score w \<and> sequence (foldl (runFrame ts) w q) = sequence w
   \<and> arrays (foldl (runFrame ts) w q) = arrays w \<and> nextArray (foldl (runFrame ts) w q) = nextArray w
   \<and> timeouts (foldl (runFrame ts) w q) = timeouts w \<and> rng (foldl (runFrame ts) w q) = rng w
   \<and> drawn (foldl (runFrame ts) w q) = drawn w \<and> musicEnabled (foldl (runFrame ts) w q) = musicEnabled w"
  by (induction q arbitrary: w) (simp_all add: runFrame_keeps)

lemma animationFrame_keeps:
  "screen (animationFrame ts w) = screen w \<and> levelIndex (animationFrame ts w) = levelIndex w
   \<and> score (animationFrame ts w) = score w \<and> sequence (animationFrame ts w) = sequence w
   \<and> arrays (animationFrame ts w) = arrays w \<and> nextArray (animationFrame ts w) = nextArray w
   \<and> timeouts (animationFrame ts w) = timeouts w \<and> rng (animationFrame ts w) = rng w
   \<and> drawn (animationFrame ts w) = drawn w \<and> musicEnabled (animationFrame ts w) = musicEnabled w"
  by (simp add: animationFrame_def frames_keep)


subsection \<open>The two flags\<close>

lemma runFrame_flags:
  "\<not> (acceptingInput w \<and> isAnimatingSequence w) \<Longrightarrow>
   \<not> (acceptingInput (runFrame ts w p) \<and> isAnimatingSequence (runFrame ts w p))"
  using runFrame_cases [of ts w p]
  by (cases "pb_onDone p") (auto simp: emit_def)

lemma frames_flags:
  "\<not> (acceptingInput w \<and> isAnimatingSequence w) \<Longrightarrow>
   \<not> (acceptingInput (foldl (runFrame ts) w q) \<and> isAnimatingSequence (foldl (runFrame ts) w q))"
proof (induction q arbitrary: w)
  case Nil
  then show ?case by simp
next
  case (Cons p q)
  from Cons.prems have "\<not> (acceptingInput (runFrame ts w p) \<and> isAnimatingSequence (runFrame ts w p))"
    by (rule runFrame_flags)
  then show ?case using Cons.IH [of "runFrame ts w p"] by simp
qed

lemma animationFrame_flags:
  "\<not> (acceptingInput w \<and> isAnimatingSequence w) \<Longrightarrow>
   \<not> (acceptingInput (animationFrame ts w) \<and> isAnimatingSequence (animationFrame ts w))"
  unfolding animationFrame_def by (rule frames_flags) simp

lemma advanceLevelOrWin_flags:
  "acceptingInput (advanceLevelOrWin w) = acceptingInput w
   \<and> isAnimatingSequence (advanceLevelOrWin w) = isAnimatingSequence w"
  by (simp add: advanceLevelOrWin_def Let_def showScreen_def emit_def randColor_def push_def)

lemma onPadPress_flags:
  "\<not> (acceptingInput w \<and> isAnimatingSequence w) \<Longrightarrow>
   \<not> (acceptingInput (onPadPress c w) \<and> isAnimatingSequence (onPadPress c w))"
  by (simp add: onPadPress_def Let_def showScreen_def emit_def advanceLevelOrWin_flags)

lemma startRunFromLevel_flags:
  "\<not> (acceptingInput w \<and> isAnimatingSequence w) \<Longrightarrow>
   \<not> (acceptingInput (after (startRunFromLevel i w)) \<and> isAnimatingSequence (after (startRunFromLevel i w)))"
  by (simp add: startRunFromLevel_def Let_def beginRound_flags)

lemma replaySequence_flags:
  "\<not> (acceptingInput w \<and> isAnimatingSequence w) \<Longrightarrow>
   \<not> (acceptingInput (after (replaySequence w)) \<and> isAnimatingSequence (after (replaySequence w)))"
  by (simp add: replaySequence_def Let_def emit_def requestPlayback_def)

lemma timeoutFires_flags:
  "\<not> (acceptingInput w \<and> isAnimatingSequence w) \<Longrightarrow>
   \<not> (acceptingInput (after (timeoutFires w)) \<and> isAnimatingSequence (after (timeoutFires w)))"
  by (simp add: timeoutFires_def beginRound_flags)

lemma handle_flags:
  assumes ok: "\<not> (acceptingInput w \<and> isAnimatingSequence w)"
  shows "\<not> (acceptingInput (after (handle e w)) \<and> isAnimatingSequence (after (handle e w)))"
proof (cases e)
  case (LevelButton i)
  then show ?thesis using startRunFromLevel_flags [OF ok, of i] by simp
next
  case ReplayButton
  then show ?thesis using replaySequence_flags [OF ok] by simp
next
  case (Pad c)
  then show ?thesis using onPadPress_flags [OF ok, of c] by simp
next
  case (AnimationFrame ts)
  then show ?thesis using animationFrame_flags [OF ok, of ts] by simp
next
  case Timeout
  then show ?thesis using timeoutFires_flags [OF ok] by simp
qed (use ok in \<open>simp_all add: showScreen_def emit_def toggleMusic_def\<close>)

text \<open>
  Claim C2. In every reachable state \<^verbatim>\<open>acceptingInput\<close> and \<^verbatim>\<open>isAnimatingSequence\<close> are
  not both true, and every event handler (a level button starting a round, an animation
  frame completing a playback, a pad press, the replay button, the timer of the level
  advance, the menu buttons) preserves that, also when a handler ends in an error.
\<close>

theorem flags_exclusive:
  "(reachable w \<longrightarrow> \<not> (acceptingInput w \<and> isAnimatingSequence w))
   \<and> (\<not> (acceptingInput w \<and> isAnimatingSequence w) \<longrightarrow>
        \<not> (acceptingInput (after (handle e w)) \<and> isAnimatingSequence (after (handle e w))))"
proof (intro conjI impI)
  assume "reachable w"
  then show "\<not> (acceptingInput w \<and> isAnimatingSequence w)"
  proof (induction rule: reachable.induct)
    case (start r)
    show ?case by (simp add: init_def)
  next
    case (step w e)
    then show ?case using handle_flags [of w e] by blast
  qed
next
  assume "\<not> (acceptingInput w \<and> isAnimatingSequence w)"
  then show "\<not> (acceptingInput (after (handle e w)) \<and> isAnimatingSequence (after (handle e w)))"
    by (rule handle_flags)
qed

theorem flags_exclusive_witness:
  "reachable demoTurn
   \<and> \<not> (acceptingInput demoTurn \<and> isAnimatingSequence demoTurn)
   \<and> \<not> (acceptingInput (after (handle ReplayButton demoTurn))
        \<and> isAnimatingSequence (after (handle ReplayButton demoTurn)))"
proof -
  have "reachable demoWatch"
    unfolding demoWatch_def by (rule reachable_run [OF reachable.start]) (auto simp: LEVELS_def)
  then have "reachable demoTurn"
    unfolding demoTurn_def by (rule reachable_run) auto
  with flags_exclusive [of demoTurn ReplayButton] show ?thesis by blast
qed

subsection \<open>Starting a run\<close>

text \<open>
  Claim C9. For every index \<open>i\<close> into the level catalog, \<^verbatim>\<open>startRunFromLevel(i)\<close> returns
  with the score 0, the level index \<open>i\<close>, a new array that holds the next
  \<^verbatim>\<open>LEVELS[i].sequenceLength\<close> random draws, the game screen shown, and the playback of
  that array registered: \<^verbatim>\<open>isAnimatingSequence\<close> is true and \<^verbatim>\<open>acceptingInput\<close> false.
\<close>

theorem start_run_fresh_sequence:
  assumes "i < length LEVELS"
  shows "\<exists>w'. startRunFromLevel i w = Inr w'
     \<and> score w' = 0 \<and> levelIndex w' = i
     \<and> sequence w' = nextArray w
     \<and> sequenceOf w' = map (rng w) [drawn w..<drawn w + sequenceLength (LEVELS ! i)]
     \<and> length (sequenceOf w') = sequenceLength (LEVELS ! i)
     \<and> screen w' = Game \<and> isAnimatingSequence w' \<and> \<not> acceptingInput w' \<and> inputIndex w' = 0
     \<and> rafQueue w' = rafQueue w @
          [\<lparr>pb_sequence = nextArray w, pb_minInterval = minIntervalOf (stepMs (LEVELS ! i)),
            pb_closure = \<lparr>idx = 0, lastStamp = 0\<rparr>, pb_onDone = RoundDone\<rparr>]"
  using assms
  by (simp add: startRunFromLevel_def Let_def fillSequence_closed showScreen_def emit_def beginRound_ok)

theorem start_run_fresh_sequence_witness:
  "0 < length LEVELS
   \<and> (\<exists>w'. startRunFromLevel 0 (init demoRng) = Inr w'
         \<and> score w' = 0 \<and> levelIndex w' = 0 \<and> sequenceOf w' = [Red, Blue, Green]
         \<and> length (sequenceOf w') = sequenceLength (LEVELS ! 0)
         \<and> screen w' = Game \<and> isAnimatingSequence w' \<and> \<not> acceptingInput w')"
proof -
  have h: "0 < length LEVELS" by (simp add: LEVELS_def)
  have draws: "map (rng (init demoRng))
      [drawn (init demoRng)..<drawn (init demoRng) + sequenceLength (LEVELS ! 0)] = [Red, Blue, Green]"
    by code_simp
  from start_run_fresh_sequence [OF h, of "init demoRng"] obtain w'
    where "startRunFromLevel 0 (init demoRng) = Inr w'" and "score w' = 0" and "levelIndex w' = 0"
      and "sequenceOf w' = map (rng (init demoRng))
            [drawn (init demoRng)..<drawn (init demoRng) + sequenceLength (LEVELS ! 0)]"
      and "length (sequenceOf w') = sequenceLength (LEVELS ! 0)"
      and "screen w' = Game" and "isAnimatingSequence w'" and "\<not> acceptingInput w'"
    by blast
  with h draws show ?thesis by auto
qed

subsection \<open>Pad presses\<close>

text \<open>
  Claim C6. A pad press that arrives while the state is not (game screen shown,
  \<^verbatim>\<open>acceptingInput\<close> true, \<^verbatim>\<open>isAnimatingSequence\<close> false) returns without an error and
  leaves the whole state as it was: every field of \<^verbatim>\<open>state\<close>, the registered callbacks
  and timers, and the effects performed.
\<close>

theorem pad_press_ignored:
  assumes "\<not> (screen w = Game \<and> acceptingInput w \<and> \<not> isAnimatingSequence w)"
  shows "handle (Pad c) w = Inr w \<and> onPadPress c w = w"
  using assms by (auto simp: onPadPress_def)

theorem pad_press_ignored_witness:
  "\<not> (screen demoWatch = Game \<and> acceptingInput demoWatch \<and> \<not> isAnimatingSequence demoWatch)
   \<and> handle (Pad Red) demoWatch = Inr demoWatch \<and> onPadPress Red demoWatch = demoWatch"
proof -
  have h: "\<not> (screen demoWatch = Game \<and> acceptingInput demoWatch \<and> \<not> isAnimatingSequence demoWatch)"
    by code_simp
  from pad_press_ignored [OF h, of Red] h show ?thesis by blast
qed

text \<open>
  Claim C5. At any cursor position, an accepted pad press whose signal differs from
  \<^verbatim>\<open>sequence[inputIndex]\<close> (also from \<^verbatim>\<open>undefined\<close>, past the end) sets
  \<^verbatim>\<open>acceptingInput\<close> to false, plays the feedback of the pad and then the wrong sound,
  writes the current score as the final score and shows the game-over screen; the score
  and every other field stay as they were.
\<close>

theorem mismatch_game_over:
  assumes "screen w = Game" and "acceptingInput w" and "\<not> isAnimatingSequence w"
    and "at_index (sequenceOf w) (inputIndex w) \<noteq> Some c"
  shows "onPadPress c w =
    w\<lparr>acceptingInput := False, screen := Gameover,
      effects := effects w @ [Signal (Some c), WrongSound, FinalScoreText (score w), Shown Gameover]\<rparr>"
  using assms by (simp add: onPadPress_def Let_def emit_def showScreen_def)

text \<open>The run of level 1 with red, blue, green: red is right, then green is wrong, at score 0.\<close>

theorem mismatch_game_over_witness:
  "screen demoSecond = Game \<and> acceptingInput demoSecond \<and> \<not> isAnimatingSequence demoSecond
   \<and> at_index (sequenceOf demoSecond) (inputIndex demoSecond) \<noteq> Some Green
   \<and> onPadPress Green demoSecond =
       demoSecond\<lparr>acceptingInput := False, screen := Gameover,
         effects := effects demoSecond @
           [Signal (Some Green), WrongSound, FinalScoreText (score demoSecond), Shown Gameover]\<rparr>
   \<and> score demoSecond = 0 \<and> inputIndex demoSecond = 1"
proof -
  have h1: "screen demoSecond = Game" by code_simp
  have h2: "acceptingInput demoSecond" by code_simp
  have h3: "\<not> isAnimatingSequence demoSecond" by code_simp
  have h4: "at_index (sequenceOf demoSecond) (inputIndex demoSecond) \<noteq> Some Green" by code_simp
  have e1: "score demoSecond = 0" by code_simp
  have e2: "inputIndex demoSecond = 1" by code_simp
  note c = mismatch_game_over [OF h1 h2 h3 h4]
  show ?thesis
    by (rule conjI [OF h1 conjI [OF h2 conjI [OF h3 conjI [OF h4 conjI [OF c conjI [OF e1 e2]]]]]])
qed

lemma press_match_mid:
  assumes "screen w = Game" and "acceptingInput w" and "\<not> isAnimatingSequence w"
    and "at_index (sequenceOf w) (inputIndex w) = Some c"
    and "inputIndex w + 1 < length (sequenceOf w)"
  shows "onPadPress c w = w\<lparr>inputIndex := inputIndex w + 1, effects := effects w @ [Signal (Some c)]\<rparr>"
  using assms by (simp add: onPadPress_def Let_def emit_def)

lemma press_match_last:
  assumes "screen w = Game" and "acceptingInput w" and "\<not> isAnimatingSequence w"
    and "at_index (sequenceOf w) (inputIndex w) = Some c"
    and "length (sequenceOf w) \<le> inputIndex w + 1"
  shows "onPadPress c w = advanceLevelOrWin (w\<lparr>inputIndex := inputIndex w + 1,
            effects := effects w @ [Signal (Some c)], acceptingInput := False\<rparr>)"
proof -
  have a: "(emit (Signal (Some c)) w)\<lparr>inputIndex := inputIndex w + 1, acceptingInput := False\<rparr> =
      w\<lparr>inputIndex := inputIndex w + 1, effects := effects w @ [Signal (Some c)],
        acceptingInput := False\<rparr>"
    by (simp add: emit_def)
  have b: "onPadPress c w =
      advanceLevelOrWin ((emit (Signal (Some c)) w)\<lparr>inputIndex := inputIndex w + 1, acceptingInput := False\<rparr>)"
    using assms by (simp add: onPadPress_def Let_def emit_simps)
  show ?thesis by (simp only: b a)
qed

lemma run_pads_prefix:
  assumes "screen w = Game" and "acceptingInput w" and "\<not> isAnimatingSequence w"
  shows "inputIndex w + k < length (sequenceOf w) \<Longrightarrow>
     run (map Pad (take k (drop (inputIndex w) (sequenceOf w)))) w =
       w\<lparr>inputIndex := inputIndex w + k,
         effects := effects w @ map (\<lambda>c. Signal (Some c)) (take k (drop (inputIndex w) (sequenceOf w)))\<rparr>"
proof (induction k)
  case 0
  then show ?case by simp
next
  case (Suc k)
  let ?cs = "drop (inputIndex w) (sequenceOf w)"
  let ?v = "w\<lparr>inputIndex := inputIndex w + k,
         effects := effects w @ map (\<lambda>c. Signal (Some c)) (take k ?cs)\<rparr>"
  from Suc.prems have k: "k < length ?cs" by simp
  then have tk: "take (Suc k) ?cs = take k ?cs @ [?cs ! k]"
    by (rule take_Suc_conv_app_nth)
  from Suc have "run (map Pad (take k ?cs)) w = ?v" by simp
  moreover have "onPadPress (?cs ! k) ?v =
      ?v\<lparr>inputIndex := inputIndex ?v + 1, effects := effects ?v @ [Signal (Some (?cs ! k))]\<rparr>"
    using assms Suc.prems by (intro press_match_mid) (simp_all add: at_index_def)
  ultimately show ?case
    by (simp add: tk run_append)
qed

text \<open>
  Claim C7. When \<^verbatim>\<open>advanceLevelOrWin\<close> runs on a level that is not the last one, the
  sequence is the same array with one drawn signal pushed: one element longer, and
  equal to the old sequence on the old indices.
\<close>

theorem advance_appends_signal:
  assumes "levelIndex w \<noteq> length LEVELS - 1"
  shows "sequenceOf (advanceLevelOrWin w) = sequenceOf w @ [rng w (drawn w)]
     \<and> sequence (advanceLevelOrWin w) = sequence w
     \<and> length (sequenceOf (advanceLevelOrWin w)) = length (sequenceOf w) + 1
     \<and> take (length (sequenceOf w)) (sequenceOf (advanceLevelOrWin w)) = sequenceOf w"
  using assms by (simp add: advanceLevelOrWin_def Let_def randColor_def push_def emit_def)

theorem advance_appends_signal_witness:
  "levelIndex demoTurn \<noteq> length LEVELS - 1
   \<and> sequenceOf (advanceLevelOrWin demoTurn) = sequenceOf demoTurn @ [rng demoTurn (drawn demoTurn)]
   \<and> sequence (advanceLevelOrWin demoTurn) = sequence demoTurn
   \<and> length (sequenceOf (advanceLevelOrWin demoTurn)) = length (sequenceOf demoTurn) + 1
   \<and> take (length (sequenceOf demoTurn)) (sequenceOf (advanceLevelOrWin demoTurn)) = sequenceOf demoTurn"
proof -
  have h: "levelIndex demoTurn \<noteq> length LEVELS - 1" by code_simp
  show ?thesis
    by (rule conjI [OF h advance_appends_signal [OF h]])
qed

text \<open>
  Claim C4. When, with input accepted, the player presses the pads of the rest of the
  sequence in order, the score grows by exactly 100 and exactly one of two things
  happens. On the last level: the victory score is written and the victory screen shown,
  with level, sequence and timers unchanged. On any other level: the level index grows
  by one, one drawn signal is pushed, the status announces the next level and the timer
  of the next round is set, the game screen staying. The effects are the feedback of
  the pads pressed followed by those of the one outcome.
\<close>

theorem correct_round_outcome:
  assumes "screen w = Game" and "acceptingInput w" and "\<not> isAnimatingSequence w"
    and "inputIndex w < length (sequenceOf w)"
  shows "score (run (map Pad (drop (inputIndex w) (sequenceOf w))) w) = score w + 100
     \<and> (if levelIndex w = length LEVELS - 1 then
          screen (run (map Pad (drop (inputIndex w) (sequenceOf w))) w) = Victory
          \<and> levelIndex (run (map Pad (drop (inputIndex w) (sequenceOf w))) w) = levelIndex w
          \<and> timeouts (run (map Pad (drop (inputIndex w) (sequenceOf w))) w) = timeouts w
          \<and> sequenceOf (run (map Pad (drop (inputIndex w) (sequenceOf w))) w) = sequenceOf w
          \<and> effects (run (map Pad (drop (inputIndex w) (sequenceOf w))) w) =
               effects w @ map (\<lambda>c. Signal (Some c)) (drop (inputIndex w) (sequenceOf w))
                 @ [VictoryScoreText (score w + 100), Shown Victory]
        else
          screen (run (map Pad (drop (inputIndex w) (sequenceOf w))) w) = Game
          \<and> levelIndex (run (map Pad (drop (inputIndex w) (sequenceOf w))) w) = levelIndex w + 1
          \<and> timeouts (run (map Pad (drop (inputIndex w) (sequenceOf w))) w) = timeouts w + 1
          \<and> sequenceOf (run (map Pad (drop (inputIndex w) (sequenceOf w))) w) =
               sequenceOf w @ [rng w (drawn w)]
          \<and> effects (run (map Pad (drop (inputIndex w) (sequenceOf w))) w) =
               effects w @ map (\<lambda>c. Signal (Some c)) (drop (inputIndex w) (sequenceOf w))
                 @ [StatusText ''Great! Next level...''])"
proof -
  let ?cs = "drop (inputIndex w) (sequenceOf w)"
  define k where "k = length (sequenceOf w) - inputIndex w - 1"
  let ?v = "w\<lparr>inputIndex := inputIndex w + k,
         effects := effects w @ map (\<lambda>c. Signal (Some c)) (take k ?cs)\<rparr>"
  from assms(4) have k: "inputIndex w + k < length (sequenceOf w)" "length ?cs = Suc k"
    by (simp_all add: k_def)
  then have cs: "?cs = take k ?cs @ [?cs ! k]"
    by (metis lessI take_Suc_conv_app_nth take_all order_refl)
  have pre: "run (map Pad (take k ?cs)) w = ?v"
    using assms(1-3) k(1) by (rule run_pads_prefix)
  let ?u = "w\<lparr>inputIndex := inputIndex w + k + 1,
          effects := effects w @ map (\<lambda>c. Signal (Some c)) ?cs,
          acceptingInput := False\<rparr>"
  have "onPadPress (?cs ! k) ?v =
     advanceLevelOrWin
       (?v\<lparr>inputIndex := inputIndex ?v + 1, effects := effects ?v @ [Signal (Some (?cs ! k))],
          acceptingInput := False\<rparr>)"
    using assms k by (intro press_match_last) (simp_all add: at_index_def k_def)
  moreover have "?v\<lparr>inputIndex := inputIndex ?v + 1, effects := effects ?v @ [Signal (Some (?cs ! k))],
          acceptingInput := False\<rparr> = ?u"
    using arg_cong [OF cs, of "map (\<lambda>c. Signal (Some c))"] by simp
  ultimately have last: "onPadPress (?cs ! k) ?v = advanceLevelOrWin ?u"
    by (rule back_subst [where P = "\<lambda>x. onPadPress (?cs ! k) ?v = advanceLevelOrWin x"])
  have "run (map Pad ?cs) w = run (map Pad (take k ?cs @ [?cs ! k])) w"
    using cs by simp
  also have "\<dots> = onPadPress (?cs ! k) ?v"
    by (simp add: run_append pre)
  finally have eq: "run (map Pad ?cs) w = advanceLevelOrWin ?u"
    using last by (rule trans)
  show ?thesis
    unfolding eq using assms(1)
    by (simp add: advanceLevelOrWin_def Let_def showScreen_def emit_def randColor_def push_def)
qed

theorem correct_round_outcome_witness:
  "screen demoTurn = Game \<and> acceptingInput demoTurn \<and> \<not> isAnimatingSequence demoTurn
   \<and> inputIndex demoTurn < length (sequenceOf demoTurn)
   \<and> score (run (map Pad (drop (inputIndex demoTurn) (sequenceOf demoTurn))) demoTurn) =
       score demoTurn + 100
   \<and> drop (inputIndex demoTurn) (sequenceOf demoTurn) = [Red, Blue, Green]
   \<and> score demoTurn = 0
   \<and> sequenceOf (run (map Pad [Red, Blue, Green]) demoTurn) = [Red, Blue, Green, Green]
   \<and> levelIndex (run (map Pad [Red, Blue, Green]) demoTurn) = 1"
proof -
  have h1: "screen demoTurn = Game" by code_simp
  have h2: "acceptingInput demoTurn" by code_simp
  have h3: "\<not> isAnimatingSequence demoTurn" by code_simp
  have h4: "inputIndex demoTurn < length (sequenceOf demoTurn)" by code_simp
  have e1: "drop (inputIndex demoTurn) (sequenceOf demoTurn) = [Red, Blue, Green]" by code_simp
  have e2: "score demoTurn = 0" by code_simp
  have e3: "sequenceOf (run (map Pad [Red, Blue, Green]) demoTurn) = [Red, Blue, Green, Green]"
    by code_simp
  have e4: "levelIndex (run (map Pad [Red, Blue, Green]) demoTurn) = 1" by code_simp
  note c = correct_round_outcome [OF h1 h2 h3 h4, THEN conjunct1]
  show ?thesis
    by (rule conjI [OF h1 conjI [OF h2 conjI [OF h3 conjI [OF h4 conjI [OF c
          conjI [OF e1 conjI [OF e2 conjI [OF e3 e4]]]]]]]])
qed

subsection \<open>The score\<close>

lemma advanceLevelOrWin_score: "score (advanceLevelOrWin w) = score w + 100"
  by (simp add: advanceLevelOrWin_def Let_def showScreen_def emit_def randColor_def push_def)

lemma onPadPress_score:
  "score (onPadPress c w) = (if completesRound c w then score w + 100 else score w)"
  by (auto simp: onPadPress_def completesRound_def Let_def showScreen_def emit_def
      advanceLevelOrWin_score)

lemma beginRound_score: "score (after (beginRound w)) = score w"
  by (cases "levelIndex w < length LEVELS") (simp_all add: beginRound_ok, simp add: beginRound_def updateHud_def)

lemma startRunFromLevel_score: "score (after (startRunFromLevel i w)) = 0"
  by (simp add: startRunFromLevel_def Let_def beginRound_score showScreen_def emit_def fillSequence_fields)

lemma handle_score:
  "score (after (handle e w)) =
     (case e of LevelButton i \<Rightarrow> 0
      | Pad c \<Rightarrow> if completesRound c w then score w + 100 else score w
      | _ \<Rightarrow> score w)"
  by (cases e)
     (simp_all add: showScreen_def emit_def toggleMusic_def startRunFromLevel_score onPadPress_score
        animationFrame_keeps timeoutFires_def beginRound_score replaySequence_def Let_def
        requestPlayback_def)

lemma run_score:
  "score w = 100 * int n \<Longrightarrow> score (run evs w) = 100 * int (roundsCompleted w n evs)"
proof (induction evs arbitrary: w n)
  case Nil
  then show ?case by simp
next
  case (Cons e evs)
  let ?n = "case e of LevelButton i \<Rightarrow> 0
             | Pad c \<Rightarrow> if completesRound c w then n + 1 else n | _ \<Rightarrow> n"
  have "score (after (handle e w)) = 100 * int ?n"
    using Cons.prems by (simp add: handle_score split: event.split)
  then have "score (run evs (after (handle e w))) = 100 * int (roundsCompleted (after (handle e w)) ?n evs)"
    by (rule Cons.IH)
  then show ?case by simp
qed

lemma roundsCompleted_snoc:
  "roundsCompleted w n (evs @ [e]) =
     (case e of LevelButton i \<Rightarrow> 0
      | Pad c \<Rightarrow> if completesRound c (run evs w) then roundsCompleted w n evs + 1
                 else roundsCompleted w n evs
      | _ \<Rightarrow> roundsCompleted w n evs)"
  by (induction evs arbitrary: w n) (simp_all split: event.split)

lemma victory_effects:
  assumes "completesRound c w" and "levelIndex w = length LEVELS - 1"
  shows "onPadPress c w =
     w\<lparr>inputIndex := inputIndex w + 1, acceptingInput := False, score := score w + 100,
       screen := Victory,
       effects := effects w @ [Signal (Some c), VictoryScoreText (score w + 100), Shown Victory]\<rparr>"
  using assms
  by (simp add: completesRound_def onPadPress_def Let_def emit_def advanceLevelOrWin_def showScreen_def)

text \<open>
  Claim C10. After any events from the initial state, the score is 100 times the number
  of rounds completed in the current run, so a non-negative multiple of 100. When a pad
  press completes the round of the last level, the victory score written is 100 times
  the number of rounds completed including that round: the 100 points are added before
  the victory screen is shown.
\<close>

theorem score_counts_rounds:
  "score (run evs (init r)) = 100 * int (roundsCompleted (init r) 0 evs)
   \<and> 0 \<le> score (run evs (init r)) \<and> score (run evs (init r)) mod 100 = 0
   \<and> (if completesRound c (run evs (init r)) \<and> levelIndex (run evs (init r)) = length LEVELS - 1
      then screen (run (evs @ [Pad c]) (init r)) = Victory
         \<and> effects (run (evs @ [Pad c]) (init r)) =
             effects (run evs (init r)) @
               [Signal (Some c),
                VictoryScoreText (100 * int (roundsCompleted (init r) 0 (evs @ [Pad c]))),
                Shown Victory]
         \<and> roundsCompleted (init r) 0 (evs @ [Pad c]) = roundsCompleted (init r) 0 evs + 1
      else True)"
proof -
  have sc: "score (run evs (init r)) = 100 * int (roundsCompleted (init r) 0 evs)"
    by (rule run_score) (simp add: init_def)
  have vic: "screen (run (evs @ [Pad c]) (init r)) = Victory
         \<and> effects (run (evs @ [Pad c]) (init r)) =
             effects (run evs (init r)) @
               [Signal (Some c),
                VictoryScoreText (100 * int (roundsCompleted (init r) 0 (evs @ [Pad c]))),
                Shown Victory]
         \<and> roundsCompleted (init r) 0 (evs @ [Pad c]) = roundsCompleted (init r) 0 evs + 1"
    if c: "completesRound c (run evs (init r))" and l: "levelIndex (run evs (init r)) = length LEVELS - 1"
    using sc c by (simp add: run_append roundsCompleted_snoc victory_effects [OF c l])
  from sc vic show ?thesis by simp
qed

text \<open>The game \<open>demoWin\<close>, started at level 1 and won: five rounds, and 500 is written.\<close>

theorem score_counts_rounds_witness:
  "completesRound Green (run demoWin (init demoRng))
   \<and> levelIndex (run demoWin (init demoRng)) = length LEVELS - 1
   \<and> score (run demoWin (init demoRng)) = 400
   \<and> roundsCompleted (init demoRng) 0 (demoWin @ [Pad Green]) = 5
   \<and> screen (run (demoWin @ [Pad Green]) (init demoRng)) = Victory
   \<and> effects (run (demoWin @ [Pad Green]) (init demoRng)) =
       effects (run demoWin (init demoRng)) @
         [Signal (Some Green), VictoryScoreText 500, Shown Victory]"
proof -
  have h1: "completesRound Green (run demoWin (init demoRng))" by code_simp
  have h2: "levelIndex (run demoWin (init demoRng)) = length LEVELS - 1" by code_simp
  have n: "roundsCompleted (init demoRng) 0 demoWin = 4" by code_simp
  from score_counts_rounds [of demoWin demoRng Green] h1 h2 n show ?thesis by simp
qed

subsection \<open>Replay\<close>






subsection \<open>Pending registrations\<close>




end
